theory Spec2Isabelle
  imports Complex_Main
begin

section \<open>Data model of mt_action.h\<close>

text \<open>
  The two enumerations of the header. Both have members called PAUSED, FINISHED and
  CANCELED; the members of \<open>ENUM_ACTION_EVENT\<close> carry the prefix \<open>EVENT_\<close> here.
\<close>

datatype ENUM_ACTION_EVENT =
  EVENT_STARTED | EVENT_PAUSED | EVENT_RESUMED | EVENT_FINISHED | EVENT_CANCELED

datatype ENUM_ACTION_STATUS = INIT | RUNNING | PAUSED | FINISHED | CANCELED

text \<open>
  Observers (\<open>OnEventFunc\<close>) and the callback of an \<open>ActionFunction\<close> are closures of the
  host program. They are named by numbers, and what a call of one does is recorded as
  an entry of an effect list: \<open>OnEvent fs e\<close> is one run of \<open>Action::_OnEvent\<close> on an
  action whose observer list is \<open>fs\<close> (every observer of \<open>fs\<close> is called, in order, with
  the event \<open>e\<close>), and \<open>FuncCall f\<close> is one call of the callback \<open>f\<close>. A closure that
  calls back into the action it belongs to is outside this model.
\<close>

datatype effect = OnEvent "nat list" ENUM_ACTION_EVENT | FuncCall nat

text \<open>The private members of the base class \<open>Action\<close>.\<close>

record Action =
  status :: ENUM_ACTION_STATUS
  OnEventFuncs :: "nat list"

text \<open>
  The class hierarchy as a tagged union, one constructor per concrete class, each with
  the base part first and then the members of the derived class in the order of their
  declaration. A \<open>double\<close> is the \<open>real\<close> it stands for. The watched variable
  of an \<open>ActionChecker\<close> is a reference into the host program: it is named by a number,
  and \<open>Update\<close> reads it from an environment. A composite holds its children by value:
  every child stands in one slot of one parent.
\<close>

datatype 'v action =
    ActionQueue Action "'v action list" nat
  | ActionWaitAny Action "'v action list"
  | ActionWaitAll Action "'v action list"
  | ActionChecker Action nat 'v bool
  | ActionWaitForTime Action real real bool
  | ActionFunction Action nat bool

fun base :: "'v action \<Rightarrow> Action" where
  "base (ActionQueue b xs i) = b"
| "base (ActionWaitAny b xs) = b"
| "base (ActionWaitAll b xs) = b"
| "base (ActionChecker b var val d) = b"
| "base (ActionWaitForTime b w e d) = b"
| "base (ActionFunction b f d) = b"

fun set_base :: "Action \<Rightarrow> 'v action \<Rightarrow> 'v action" where
  "set_base b' (ActionQueue b xs i) = ActionQueue b' xs i"
| "set_base b' (ActionWaitAny b xs) = ActionWaitAny b' xs"
| "set_base b' (ActionWaitAll b xs) = ActionWaitAll b' xs"
| "set_base b' (ActionChecker b var val d) = ActionChecker b' var val d"
| "set_base b' (ActionWaitForTime b w e d) = ActionWaitForTime b' w e d"
| "set_base b' (ActionFunction b f d) = ActionFunction b' f d"

definition GetStatus :: "'v action \<Rightarrow> ENUM_ACTION_STATUS" where
  "GetStatus a = status (base a)"

definition IsInit :: "'v action \<Rightarrow> bool" where
  "IsInit a = (INIT = GetStatus a)"

definition IsRunning :: "'v action \<Rightarrow> bool" where
  "IsRunning a = (RUNNING = GetStatus a)"

definition IsPaused :: "'v action \<Rightarrow> bool" where
  "IsPaused a = (PAUSED = GetStatus a)"

definition IsCanceled :: "'v action \<Rightarrow> bool" where
  "IsCanceled a = (CANCELED = GetStatus a)"

definition IsFinished :: "'v action \<Rightarrow> bool" where
  "IsFinished a = (FINISHED = GetStatus a)"

text \<open>The virtual \<open>IsDone\<close>, one equation per override.\<close>

fun IsDone :: "'v action \<Rightarrow> bool" where
  "IsDone (ActionQueue b xs i) = (i \<ge> length xs)"
| "IsDone (ActionWaitAny b xs) = list_ex IsFinished xs"
| "IsDone (ActionWaitAll b xs) = list_all IsFinished xs"
| "IsDone (ActionChecker b var val d) = d"
| "IsDone (ActionWaitForTime b w e d) = d"
| "IsDone (ActionFunction b f d) = d"

section \<open>The lifecycle operations of the base class\<close>

text \<open>
  Each operation returns the new base part and the effects of the call. \<open>_OnEvent\<close>
  runs over the observer list of the action it is called on.
\<close>

definition OnEvent_call :: "Action \<Rightarrow> ENUM_ACTION_EVENT \<Rightarrow> effect list" where
  "OnEvent_call b e = [OnEvent (OnEventFuncs b) e]"

definition Action_Start :: "Action \<Rightarrow> Action \<times> effect list" where
  "Action_Start b =
     (if INIT = status b then (b\<lparr>status := RUNNING\<rparr>, OnEvent_call b EVENT_STARTED)
      else (b, []))"

definition Action_Pause :: "Action \<Rightarrow> Action \<times> effect list" where
  "Action_Pause b =
     (if RUNNING = status b then (b\<lparr>status := PAUSED\<rparr>, OnEvent_call b EVENT_PAUSED)
      else (b, []))"

definition Action_Resume :: "Action \<Rightarrow> Action \<times> effect list" where
  "Action_Resume b =
     (if PAUSED = status b then (b\<lparr>status := RUNNING\<rparr>, OnEvent_call b EVENT_RESUMED)
      else (b, []))"

definition Action_Stop :: "Action \<Rightarrow> Action \<times> effect list" where
  "Action_Stop b = (b\<lparr>status := CANCELED\<rparr>, OnEvent_call b EVENT_CANCELED)"

text \<open>\<open>Action::UpdateStatus\<close>; the argument \<open>done\<close> is the value of the virtual \<open>IsDone()\<close>.\<close>

definition Action_UpdateStatus :: "bool \<Rightarrow> Action \<Rightarrow> Action \<times> effect list" where
  "Action_UpdateStatus done b =
     (if done then (b\<lparr>status := FINISHED\<rparr>, OnEvent_call b EVENT_FINISHED)
      else (b, []))"

text \<open>\<open>Start\<close> is overridden by no class: it is \<open>Action::Start\<close> on every action.\<close>

definition Start :: "'v action \<Rightarrow> 'v action \<times> effect list" where
  "Start a = (let (b', t) = Action_Start (base a) in (set_base b' a, t))"

section \<open>Pause, Resume and Stop\<close>

text \<open>
  \<open>ActionQueue\<close> forwards each of the three to \<open>_actions[_index]\<close>, which is
  \<open>std::vector::operator[]\<close>: a read past the end of the vector is undefined behaviour,
  and the result \<open>None\<close> stands for it. \<open>ActionWaitAny\<close> and \<open>ActionWaitAll\<close> forward to
  every child, in order. The leaf classes inherit the operation of the base class.
\<close>

lemma size_nth_less [termination_simp]:
  "i < length xs \<Longrightarrow> f (xs ! i) < Suc (size_list f xs)"
proof (induction xs arbitrary: i)
  case Nil
  then show ?case by simp
next
  case (Cons x xs)
  show ?case
  proof (cases i)
    case 0
    then show ?thesis by simp
  next
    case (Suc j)
    with Cons.prems have "j < length xs" by simp
    from Cons.IH [OF this] Suc show ?thesis by simp
  qed
qed

fun Pause :: "'v action \<Rightarrow> ('v action \<times> effect list) option"
  and Pause_each :: "'v action list \<Rightarrow> ('v action list \<times> effect list) option" where
  "Pause (ActionQueue b xs i) =
     (let (b', t) = Action_Pause b in
      if i < length xs then
        (case Pause (xs ! i) of
           None \<Rightarrow> None
         | Some (c, t') \<Rightarrow> Some (ActionQueue b' (xs[i := c]) i, t @ t'))
      else None)"
| "Pause (ActionWaitAny b xs) =
     (let (b', t) = Action_Pause b in
      case Pause_each xs of
        None \<Rightarrow> None
      | Some (xs', t') \<Rightarrow> Some (ActionWaitAny b' xs', t @ t'))"
| "Pause (ActionWaitAll b xs) =
     (let (b', t) = Action_Pause b in
      case Pause_each xs of
        None \<Rightarrow> None
      | Some (xs', t') \<Rightarrow> Some (ActionWaitAll b' xs', t @ t'))"
| "Pause (ActionChecker b var val d) =
     (let (b', t) = Action_Pause b in Some (ActionChecker b' var val d, t))"
| "Pause (ActionWaitForTime b w e d) =
     (let (b', t) = Action_Pause b in Some (ActionWaitForTime b' w e d, t))"
| "Pause (ActionFunction b f d) =
     (let (b', t) = Action_Pause b in Some (ActionFunction b' f d, t))"
| "Pause_each [] = Some ([], [])"
| "Pause_each (x # xs) =
     (case Pause x of
        None \<Rightarrow> None
      | Some (x', t) \<Rightarrow>
          (case Pause_each xs of
             None \<Rightarrow> None
           | Some (xs', t') \<Rightarrow> Some (x' # xs', t @ t')))"

fun Resume :: "'v action \<Rightarrow> ('v action \<times> effect list) option"
  and Resume_each :: "'v action list \<Rightarrow> ('v action list \<times> effect list) option" where
  "Resume (ActionQueue b xs i) =
     (let (b', t) = Action_Resume b in
      if i < length xs then
        (case Resume (xs ! i) of
           None \<Rightarrow> None
         | Some (c, t') \<Rightarrow> Some (ActionQueue b' (xs[i := c]) i, t @ t'))
      else None)"
| "Resume (ActionWaitAny b xs) =
     (let (b', t) = Action_Resume b in
      case Resume_each xs of
        None \<Rightarrow> None
      | Some (xs', t') \<Rightarrow> Some (ActionWaitAny b' xs', t @ t'))"
| "Resume (ActionWaitAll b xs) =
     (let (b', t) = Action_Resume b in
      case Resume_each xs of
        None \<Rightarrow> None
      | Some (xs', t') \<Rightarrow> Some (ActionWaitAll b' xs', t @ t'))"
| "Resume (ActionChecker b var val d) =
     (let (b', t) = Action_Resume b in Some (ActionChecker b' var val d, t))"
| "Resume (ActionWaitForTime b w e d) =
     (let (b', t) = Action_Resume b in Some (ActionWaitForTime b' w e d, t))"
| "Resume (ActionFunction b f d) =
     (let (b', t) = Action_Resume b in Some (ActionFunction b' f d, t))"
| "Resume_each [] = Some ([], [])"
| "Resume_each (x # xs) =
     (case Resume x of
        None \<Rightarrow> None
      | Some (x', t) \<Rightarrow>
          (case Resume_each xs of
             None \<Rightarrow> None
           | Some (xs', t') \<Rightarrow> Some (x' # xs', t @ t')))"

fun Stop :: "'v action \<Rightarrow> ('v action \<times> effect list) option"
  and Stop_each :: "'v action list \<Rightarrow> ('v action list \<times> effect list) option" where
  "Stop (ActionQueue b xs i) =
     (let (b', t) = Action_Stop b in
      if i < length xs then
        (case Stop (xs ! i) of
           None \<Rightarrow> None
         | Some (c, t') \<Rightarrow> Some (ActionQueue b' (xs[i := c]) i, t @ t'))
      else None)"
| "Stop (ActionWaitAny b xs) =
     (let (b', t) = Action_Stop b in
      case Stop_each xs of
        None \<Rightarrow> None
      | Some (xs', t') \<Rightarrow> Some (ActionWaitAny b' xs', t @ t'))"
| "Stop (ActionWaitAll b xs) =
     (let (b', t) = Action_Stop b in
      case Stop_each xs of
        None \<Rightarrow> None
      | Some (xs', t') \<Rightarrow> Some (ActionWaitAll b' xs', t @ t'))"
| "Stop (ActionChecker b var val d) =
     (let (b', t) = Action_Stop b in Some (ActionChecker b' var val d, t))"
| "Stop (ActionWaitForTime b w e d) =
     (let (b', t) = Action_Stop b in Some (ActionWaitForTime b' w e d, t))"
| "Stop (ActionFunction b f d) =
     (let (b', t) = Action_Stop b in Some (ActionFunction b' f d, t))"
| "Stop_each [] = Some ([], [])"
| "Stop_each (x # xs) =
     (case Stop x of
        None \<Rightarrow> None
      | Some (x', t) \<Rightarrow>
          (case Stop_each xs of
             None \<Rightarrow> None
           | Some (xs', t') \<Rightarrow> Some (x' # xs', t @ t')))"

section \<open>Double arithmetic\<close>

text \<open>
  A finite \<open>double\<close> is the real number it stands for. An addition or subtraction of
  two doubles returns the exact result rounded to a double; \<open>double_round\<close> is that
  rounding in the default mode of IEEE 754 binary64, to the nearest double with ties
  to the even significand: 53 significant bits for a normal number, multiples of
  \<open>2 powi -1074\<close> below \<open>2 powi -1022\<close>. Overflow to infinity and NaN are outside the
  model.
\<close>

definition round_even :: "real \<Rightarrow> int" where
  "round_even y =
     (let n = \<lfloor>y\<rfloor> in
      if y - of_int n < 1 / 2 then n
      else if 1 / 2 < y - of_int n then n + 1
      else if even n then n else n + 1)"

definition double_round :: "real \<Rightarrow> real" where
  "double_round x =
     (if x = 0 then 0
      else
        (let e = max \<lfloor>log 2 \<bar>x\<bar>\<rfloor> (- 1022);
             q = 2 powi (e - 52)
         in of_int (round_even (x / q)) * q))"

section \<open>Update\<close>

text \<open>
  \<open>ActionWaitAny::UpdateStatus\<close> stops every child that is not finished once the base
  class has set the composite to FINISHED.
\<close>

fun Stop_unfinished :: "'v action list \<Rightarrow> ('v action list \<times> effect list) option" where
  "Stop_unfinished [] = Some ([], [])"
| "Stop_unfinished (x # xs) =
     (case (if \<not> IsFinished x then Stop x else Some (x, [])) of
        None \<Rightarrow> None
      | Some (x', t) \<Rightarrow>
          (case Stop_unfinished xs of
             None \<Rightarrow> None
           | Some (xs', t') \<Rightarrow> Some (x' # xs', t @ t')))"

definition ActionWaitAny_UpdateStatus ::
  "Action \<Rightarrow> 'v action list \<Rightarrow> (Action \<times> 'v action list \<times> effect list) option" where
  "ActionWaitAny_UpdateStatus b xs =
     (let (b', t) = Action_UpdateStatus (IsDone (ActionWaitAny b xs)) b in
      if FINISHED = status b' then
        (case Stop_unfinished xs of
           None \<Rightarrow> None
         | Some (xs', t') \<Rightarrow> Some (b', xs', t @ t'))
      else Some (b', xs, t))"

lemma size_set_base: "size (set_base b a) = size a"
  by (cases a) simp_all

lemma Start_size: "Start c = (c', t) \<Longrightarrow> size c' = size c"
  by (auto simp: Start_def size_set_base split: prod.splits)

lemma size_list_update_same:
  "i < length xs \<Longrightarrow> f c = f (xs ! i) \<Longrightarrow> size_list f (xs[i := c]) = size_list f xs"
proof (induction xs arbitrary: i)
  case Nil
  then show ?case by simp
next
  case (Cons x xs)
  then show ?case by (cases i) simp_all
qed

lemma Pause_size_both:
  fixes a :: "'v action" and xs :: "'v action list"
  shows "Pause a = Some (a', t) \<Longrightarrow> size a' = size a"
    and "Pause_each xs = Some (xs', t') \<Longrightarrow> size_list size xs' = size_list size xs"
proof (induction a and xs arbitrary: a' t and xs' t' rule: Pause_Pause_each.induct)
  case (1 b xs i)
  then show ?case
    by (auto simp: size_list_update_same split: prod.splits option.splits if_splits)
qed (auto split: prod.splits option.splits)

lemma Pause_size: "Pause c = Some (c', t) \<Longrightarrow> size c' = size c"
  by (rule Pause_size_both(1))

lemma size_list_drop_le: "size_list f (drop i xs) \<le> size_list f xs"
proof (induction xs arbitrary: i)
  case Nil
  then show ?case by simp
next
  case (Cons x xs)
  show ?case
  proof (cases i)
    case 0
    then show ?thesis by simp
  next
    case (Suc j)
    with Cons.IH [of j] show ?thesis by simp
  qed
qed

text \<open>
  \<open>Update_rounded rnd env intervalTime a\<close> returns the action after the call, the
  effects of the call and the returned left time. \<open>rnd\<close> is the rounding of one double
  addition or subtraction: where the source computes \<open>x + y\<close> on doubles the model has
  \<open>rnd (x + y)\<close>; comparisons are exact. The three loops over \<open>_actions\<close> are recursive
  functions over the children still to visit. The loop of \<open>ActionQueue::Update\<close> starts
  at the child under \<open>_index\<close>, so it runs over \<open>drop _index _actions\<close>; it returns the
  children it has visited and left, the number of times it has executed \<open>_index++\<close>,
  the left time and the effects. \<open>paused\<close> is \<open>Action::IsPaused()\<close> of the queue itself.
\<close>

function Update_rounded ::
    "(real \<Rightarrow> real) \<Rightarrow> (nat \<Rightarrow> 'v) \<Rightarrow> real \<Rightarrow> 'v action \<Rightarrow> ('v action \<times> effect list \<times> real) option"
  and ActionQueue_loop ::
    "(real \<Rightarrow> real) \<Rightarrow> (nat \<Rightarrow> 'v) \<Rightarrow> bool \<Rightarrow> real \<Rightarrow> 'v action list
       \<Rightarrow> ('v action list \<times> nat \<times> effect list \<times> real) option"
  and ActionWaitAny_loop ::
    "(real \<Rightarrow> real) \<Rightarrow> (nat \<Rightarrow> 'v) \<Rightarrow> real \<Rightarrow> real \<Rightarrow> 'v action list
       \<Rightarrow> ('v action list \<times> effect list \<times> real) option"
  and ActionWaitAll_loop ::
    "(real \<Rightarrow> real) \<Rightarrow> (nat \<Rightarrow> 'v) \<Rightarrow> real \<Rightarrow> real \<Rightarrow> 'v action list
       \<Rightarrow> ('v action list \<times> effect list \<times> real) option"
where
  "Update_rounded rnd env intervalTime (ActionQueue b xs i) =
     (case ActionQueue_loop rnd env (PAUSED = status b) intervalTime (drop i xs) of
        None \<Rightarrow> None
      | Some (ys, k, t, left) \<Rightarrow>
          (let xs' = take i xs @ ys;
               i' = i + k;
               (b', t') = Action_UpdateStatus (IsDone (ActionQueue b xs' i')) b
           in Some (ActionQueue b' xs' i', t @ t', left)))"
| "Update_rounded rnd env intervalTime (ActionWaitAny b xs) =
     (case ActionWaitAny_loop rnd env intervalTime 0 xs of
        None \<Rightarrow> None
      | Some (xs', t, maxLeftTime) \<Rightarrow>
          (case ActionWaitAny_UpdateStatus b xs' of
             None \<Rightarrow> None
           | Some (b', xs'', t') \<Rightarrow> Some (ActionWaitAny b' xs'', t @ t', maxLeftTime)))"
| "Update_rounded rnd env intervalTime (ActionWaitAll b xs) =
     (case ActionWaitAll_loop rnd env intervalTime 0 xs of
        None \<Rightarrow> None
      | Some (xs', t, minLeftTime) \<Rightarrow>
          (let (b', t') = Action_UpdateStatus (IsDone (ActionWaitAll b xs')) b
           in Some (ActionWaitAll b' xs', t @ t', minLeftTime)))"
| "Update_rounded rnd env intervalTime (ActionChecker b var val d) =
     (if RUNNING \<noteq> status b then Some (ActionChecker b var val d, [], 0)
      else
        (let d' = (env var = val);
             (b', t) = Action_UpdateStatus d' b
         in Some (ActionChecker b' var val d', t, if d' then intervalTime else 0)))"
| "Update_rounded rnd env intervalTime (ActionWaitForTime b waitTime delayedTime d) =
     (if RUNNING \<noteq> status b then Some (ActionWaitForTime b waitTime delayedTime d, [], 0)
      else
        (let d' = (rnd (delayedTime + intervalTime) \<ge> waitTime);
             used = (if d' then rnd (waitTime - delayedTime) else intervalTime);
             (b', t) = Action_UpdateStatus d' b
         in Some (ActionWaitForTime b' waitTime (rnd (delayedTime + used)) d', t,
                  rnd (intervalTime - used))))"
| "Update_rounded rnd env intervalTime (ActionFunction b f d) =
     (if RUNNING \<noteq> status b then Some (ActionFunction b f d, [], 0)
      else
        (let (b', t) = Action_UpdateStatus True b
         in Some (ActionFunction b' f True, FuncCall f # t, intervalTime)))"
| "ActionQueue_loop rnd env paused intervalTime [] = Some ([], 0, [], intervalTime)"
| "ActionQueue_loop rnd env paused intervalTime (c # rest) =
     (let (c1, t1) = (if IsInit c then Start c else (c, [])) in
      case (if IsRunning c1 \<and> paused then Pause c1 else Some (c1, [])) of
        None \<Rightarrow> None
      | Some (c2, t2) \<Rightarrow>
          (case (if intervalTime > 0 \<and> IsRunning c2 then Update_rounded rnd env intervalTime c2
                 else Some (c2, [], intervalTime)) of
             None \<Rightarrow> None
           | Some (c3, t3, left) \<Rightarrow>
               if IsFinished c3 then
                 (case ActionQueue_loop rnd env paused left rest of
                    None \<Rightarrow> None
                  | Some (rest', k, t4, left') \<Rightarrow>
                      Some (c3 # rest', Suc k, t1 @ t2 @ t3 @ t4, left'))
               else Some (c3 # rest, 0, t1 @ t2 @ t3, left)))"
| "ActionWaitAny_loop rnd env intervalTime maxLeftTime [] = Some ([], [], maxLeftTime)"
| "ActionWaitAny_loop rnd env intervalTime maxLeftTime (c # rest) =
     (let (c1, t1) = (if IsInit c then Start c else (c, [])) in
      case (if IsRunning c1 then
              (case Update_rounded rnd env intervalTime c1 of
                 None \<Rightarrow> None
               | Some (c2, t2, left) \<Rightarrow>
                   Some (c2, t2, if left > maxLeftTime then left else maxLeftTime))
            else Some (c1, [], maxLeftTime)) of
        None \<Rightarrow> None
      | Some (c2, t2, maxLeftTime') \<Rightarrow>
          (case ActionWaitAny_loop rnd env intervalTime maxLeftTime' rest of
             None \<Rightarrow> None
           | Some (rest', t3, maxLeftTime'') \<Rightarrow>
               Some (c2 # rest', t1 @ t2 @ t3, maxLeftTime'')))"
| "ActionWaitAll_loop rnd env intervalTime minLeftTime [] = Some ([], [], minLeftTime)"
| "ActionWaitAll_loop rnd env intervalTime minLeftTime (c # rest) =
     (let (c1, t1) = (if IsInit c then Start c else (c, [])) in
      case (if IsRunning c1 then
              (case Update_rounded rnd env intervalTime c1 of
                 None \<Rightarrow> None
               | Some (c2, t2, left) \<Rightarrow>
                   Some (c2, t2, if left < minLeftTime then left else minLeftTime))
            else Some (c1, [], minLeftTime)) of
        None \<Rightarrow> None
      | Some (c2, t2, minLeftTime') \<Rightarrow>
          (case ActionWaitAll_loop rnd env intervalTime minLeftTime' rest of
             None \<Rightarrow> None
           | Some (rest', t3, minLeftTime'') \<Rightarrow>
               Some (c2 # rest', t1 @ t2 @ t3, minLeftTime'')))"
  by pat_completeness auto

termination
proof (relation "measure (\<lambda>x. case x of
          Inl (Inl (rnd, env, dt, a)) \<Rightarrow> 2 * size a
        | Inl (Inr (rnd, env, p, dt, cs)) \<Rightarrow> 2 * size_list size cs + 1
        | Inr (Inl (rnd, env, dt, m, cs)) \<Rightarrow> 2 * size_list size cs + 1
        | Inr (Inr (rnd, env, dt, m, cs)) \<Rightarrow> 2 * size_list size cs + 1)", goal_cases)
  case 1
  then show ?case by simp
next
  case (2 rnd env intervalTime b xs i)
  have "size_list size (drop i xs) \<le> size_list size xs" by (rule size_list_drop_le)
  then show ?case by simp
next
  case (3 rnd env intervalTime b xs)
  then show ?case by simp
next
  case (4 rnd env intervalTime b xs)
  then show ?case by simp
next
  case (5 rnd env paused intervalTime c rest x c1 t1 x2 c2 t2)
  then show ?case
    by (auto dest!: Start_size Pause_size sym [of "(c1, t1)"] split: if_splits)
next
  case (6 rnd env paused intervalTime c rest x c1 t1 x2 c2 t2 x2a c3 y t3 left)
  then show ?case by simp
next
  case (7 rnd env intervalTime maxLeftTime c rest x c1 t1)
  then show ?case
    by (auto dest!: Start_size sym [of "(c1, t1)"] split: if_splits)
next
  case (8 rnd env intervalTime maxLeftTime c rest x c1 t1 x2 c2 y t2 maxLeftTime')
  then show ?case by simp
next
  case (9 rnd env intervalTime minLeftTime c rest x c1 t1)
  then show ?case
    by (auto dest!: Start_size sym [of "(c1, t1)"] split: if_splits)
next
  case (10 rnd env intervalTime minLeftTime c rest x c1 t1 x2 c2 y t2 minLeftTime')
  then show ?case by simp
qed

text \<open>
  \<open>Update\<close> is \<open>Update_rounded\<close> with arithmetic that does not round: the behaviour of
  the code on every call whose sums and differences are doubles themselves.
\<close>

abbreviation Update ::
  "(nat \<Rightarrow> 'v) \<Rightarrow> real \<Rightarrow> 'v action \<Rightarrow> ('v action \<times> effect list \<times> real) option" where
  "Update \<equiv> Update_rounded (\<lambda>x. x)"

section \<open>ActionManager (mt_action.cpp)\<close>

text \<open>
  \<open>_actions\<close> is an \<open>unordered_map\<close> from names to actions. It is an association list
  here, and the order of the list is the order in which the loop of
  \<open>ActionManager::Update\<close> meets the entries; the standard leaves that order open, so
  the theorems below hold for every order. The keys of a registry are distinct.
\<close>

type_synonym 'v ActionManager = "(string \<times> 'v action) list"

definition ActionManager_Start ::
  "string \<Rightarrow> 'v action \<Rightarrow> 'v ActionManager \<Rightarrow> 'v ActionManager \<times> effect list" where
  "ActionManager_Start name a m =
     (case map_of m name of
        Some it \<Rightarrow> (m, [])
      | None \<Rightarrow> (let (a', t) = Start a in (m @ [(name, a')], t)))"

fun ActionManager_Update ::
  "(nat \<Rightarrow> 'v) \<Rightarrow> real \<Rightarrow> 'v ActionManager \<Rightarrow> ('v ActionManager \<times> effect list) option" where
  "ActionManager_Update env intervalTime [] = Some ([], [])"
| "ActionManager_Update env intervalTime ((name, a) # rest) =
     (case Update env intervalTime a of
        None \<Rightarrow> None
      | Some (a', t, left) \<Rightarrow>
          (case ActionManager_Update env intervalTime rest of
             None \<Rightarrow> None
           | Some (rest', t') \<Rightarrow>
               Some (if IsFinished a' then rest' else (name, a') # rest', t @ t')))"

definition IsExist :: "string \<Rightarrow> 'v ActionManager \<Rightarrow> bool" where
  "IsExist name m = (case map_of m name of Some it \<Rightarrow> True | None \<Rightarrow> False)"

section \<open>Sequences of operations\<close>

text \<open>
  One call on an action: a lifecycle operation or \<open>Update\<close>, the latter with the values
  of the watched variables at the time of the call and the interval.
\<close>

datatype 'v operation = OpStart | OpPause | OpResume | OpStop | OpUpdate "nat \<Rightarrow> 'v" real

fun perform :: "'v operation \<Rightarrow> 'v action \<Rightarrow> ('v action \<times> effect list) option" where
  "perform OpStart a = Some (Start a)"
| "perform OpPause a = Pause a"
| "perform OpResume a = Resume a"
| "perform OpStop a = Stop a"
| "perform (OpUpdate env intervalTime) a =
     (case Update env intervalTime a of
        None \<Rightarrow> None
      | Some (a', t, left) \<Rightarrow> Some (a', t))"

text \<open>A sequence of calls, with all effects in order.\<close>

fun run :: "'v operation list \<Rightarrow> 'v action \<Rightarrow> ('v action \<times> effect list) option" where
  "run [] a = Some (a, [])"
| "run (op # ops) a =
     (case perform op a of
        None \<Rightarrow> None
      | Some (a', t) \<Rightarrow>
          (case run ops a' of
             None \<Rightarrow> None
           | Some (a'', t') \<Rightarrow> Some (a'', t @ t')))"


text \<open>
  Successive \<open>Update\<close> calls with the given intervals: the action after the last call and
  the left time returned by each call.
\<close>

fun Update_steps ::
  "(real \<Rightarrow> real) \<Rightarrow> (nat \<Rightarrow> 'v) \<Rightarrow> real list \<Rightarrow> 'v action
     \<Rightarrow> ('v action \<times> real list) option" where
  "Update_steps rnd env [] a = Some (a, [])"
| "Update_steps rnd env (d # ds) a =
     (case Update_rounded rnd env d a of
        None \<Rightarrow> None
      | Some (a', t, left) \<Rightarrow>
          (case Update_steps rnd env ds a' of
             None \<Rightarrow> None
           | Some (a'', lefts) \<Rightarrow> Some (a'', left # lefts)))"

text \<open>
  The elapsed time of a timer as the code accumulates it, one rounded addition per
  call, from the elapsed time \<open>e\<close>; and the totals after each of the calls.
\<close>

fun elapsed :: "(real \<Rightarrow> real) \<Rightarrow> real \<Rightarrow> real list \<Rightarrow> real" where
  "elapsed rnd e [] = e"
| "elapsed rnd e (d # ds) = elapsed rnd (rnd (e + d)) ds"


fun is_leaf :: "'v action \<Rightarrow> bool" where
  "is_leaf (ActionQueue b xs i) = False"
| "is_leaf (ActionWaitAny b xs) = False"
| "is_leaf (ActionWaitAll b xs) = False"
| "is_leaf (ActionChecker b var val d) = True"
| "is_leaf (ActionWaitForTime b w e d) = True"
| "is_leaf (ActionFunction b f d) = True"

text \<open>An environment in which every watched variable is 0.\<close>

definition env0 :: "nat \<Rightarrow> int" where
  "env0 var = 0"

text \<open>A base part as the constructor leaves it, with the observers \<open>fs\<close> subscribed.\<close>

definition fresh :: "nat list \<Rightarrow> Action" where
  "fresh fs = \<lparr>status = INIT, OnEventFuncs = fs\<rparr>"

section \<open>The transition table of the specification\<close>





section \<open>The left time of ActionWaitAll as the specification words it\<close>




section \<open>Basic facts\<close>

lemmas status_defs = GetStatus_def IsInit_def IsRunning_def IsPaused_def IsCanceled_def
  IsFinished_def

lemmas base_defs = Action_Start_def Action_Pause_def Action_Resume_def Action_Stop_def
  Action_UpdateStatus_def OnEvent_call_def

section \<open>Evaluating the rounding\<close>

text \<open>
  \<open>double_round\<close> at a number whose binary exponent \<open>e\<close> is known, and its values at the
  numbers the examples below pass through. \<open>1 / 9007199254740992\<close> is \<open>2 powi -53\<close>; the
  last two are ties, \<open>2 + 2 powi -53\<close> in the binade of 2 and \<open>1 + 2 powi -53\<close> halfway
  between 1 and the next double.
\<close>

lemma floor_log2_eq:
  assumes "2 powi e \<le> x" and "x < 2 powi (e + 1)"
  shows "\<lfloor>log 2 x\<rfloor> = e"
proof -
  have "(0::real) < 2 powi e" by simp
  with assms(1) have pos: "0 < x" by linarith
  have a: "(2::real) powr real_of_int e = 2 powi e"
    by (rule powr_real_of_int') simp_all
  have "(2::real) powr real_of_int (e + 1) = 2 powi (e + 1)"
    by (rule powr_real_of_int') simp_all
  then have b: "(2::real) powr (real_of_int e + 1) = 2 powi (e + 1)" by simp
  from a b assms have "2 powr real_of_int e \<le> x \<and> x < 2 powr (real_of_int e + 1)"
    by simp
  with pos show ?thesis by (simp add: floor_log_eq_powr_iff)
qed

lemma double_round_eval:
  assumes "2 powi e \<le> \<bar>x\<bar>" and "\<bar>x\<bar> < 2 powi (e + 1)" and "- 1022 \<le> e"
  shows "double_round x = of_int (round_even (x / 2 powi (e - 52))) * 2 powi (e - 52)"
proof -
  have "(0::real) < 2 powi e" by simp
  with assms(1) have "0 < \<bar>x\<bar>" by linarith
  then have nz: "x \<noteq> 0" by simp
  from floor_log2_eq [OF assms(1) assms(2)] assms(3) have
    "max \<lfloor>log 2 \<bar>x\<bar>\<rfloor> (- 1022) = e" by simp
  with nz show ?thesis by (simp add: double_round_def Let_def)
qed

lemma double_round_0: "double_round 0 = 0"
  by (simp add: double_round_def)

lemma double_round_values:
  "double_round (1 / 2) = 1 / 2"
  "double_round 1 = 1"
  "double_round 2 = 2"
  "double_round (5 / 2) = 5 / 2"
  "double_round 3 = 3"
  "double_round 4 = 4"
  "double_round 5 = 5"
  using double_round_eval [of "-1" "1 / 2"] double_round_eval [of 0 1]
    double_round_eval [of 1 2] double_round_eval [of 1 "5 / 2"] double_round_eval [of 1 3]
    double_round_eval [of 2 4] double_round_eval [of 2 5]
  by (simp_all add: round_even_def)

lemma double_round_ties:
  "double_round (1 / 9007199254740992) = 1 / 9007199254740992"
  "double_round (18014398509481985 / 9007199254740992) = 2"
  "double_round (9007199254740993 / 9007199254740992) = 1"
  using double_round_eval [of "-53" "1 / 9007199254740992"]
    double_round_eval [of 1 "18014398509481985 / 9007199254740992"]
    double_round_eval [of 0 "9007199254740993 / 9007199254740992"]
  by (simp_all add: round_even_def)

section \<open>The status along a sequence of operations\<close>









section \<open>Update on an action that is not running\<close>

text \<open>
  Claim C2, as amended. For a leaf action whose status is not RUNNING, \<open>Update\<close> with
  any interval returns the action unchanged, has no effect and returns the left time 0.
\<close>

theorem C2_leaf_update_guard:
  "is_leaf a \<Longrightarrow> \<not> IsRunning a \<Longrightarrow> Update env intervalTime a = Some (a, [], 0)"
  by (cases a) (auto simp: status_defs)

theorem C2_witness:
  "is_leaf (ActionWaitForTime \<lparr>status = PAUSED, OnEventFuncs = [1]\<rparr> 5 2 False :: int action) \<and>
   \<not> IsRunning (ActionWaitForTime \<lparr>status = PAUSED, OnEventFuncs = [1]\<rparr> 5 2 False :: int action) \<and>
   Update env0 3 (ActionWaitForTime \<lparr>status = PAUSED, OnEventFuncs = [1]\<rparr> 5 2 False) =
     Some (ActionWaitForTime \<lparr>status = PAUSED, OnEventFuncs = [1]\<rparr> 5 2 False, [], 0)"
  using C2_leaf_update_guard [of "ActionWaitForTime \<lparr>status = PAUSED, OnEventFuncs = [1]\<rparr> 5 2 False :: int action" env0 3]
  by (simp add: status_defs)

text \<open>
  The claim as stated fails for a composite. A started queue, paused before its first
  \<open>Update\<close>, is PAUSED while its child is still INIT. \<open>Update\<close> with interval 3 then starts
  the child and pauses it, so two observers' events fire and the state changes, and
  the call returns 3.
\<close>

theorem C2_counterexample:
  "Pause (fst (Start (ActionQueue (fresh [1]) [ActionWaitForTime (fresh [2]) 5 0 False] 0))) =
     Some (ActionQueue \<lparr>status = PAUSED, OnEventFuncs = [1]\<rparr>
             [ActionWaitForTime \<lparr>status = INIT, OnEventFuncs = [2]\<rparr> 5 0 False] 0,
           [OnEvent [1] EVENT_PAUSED]) \<and>
   \<not> IsRunning (ActionQueue \<lparr>status = PAUSED, OnEventFuncs = [1]\<rparr>
             [ActionWaitForTime \<lparr>status = INIT, OnEventFuncs = [2]\<rparr> 5 0 False :: int action] 0) \<and>
   Update env0 3 (ActionQueue \<lparr>status = PAUSED, OnEventFuncs = [1]\<rparr>
             [ActionWaitForTime \<lparr>status = INIT, OnEventFuncs = [2]\<rparr> 5 0 False] 0) =
     Some (ActionQueue \<lparr>status = PAUSED, OnEventFuncs = [1]\<rparr>
             [ActionWaitForTime \<lparr>status = PAUSED, OnEventFuncs = [2]\<rparr> 5 0 False] 0,
           [OnEvent [2] EVENT_STARTED, OnEvent [2] EVENT_PAUSED], 3)"
  by (simp add: fresh_def Start_def status_defs base_defs)

section \<open>ActionQueue: the child under the cursor\<close>

text \<open>
  Claim C3. \<open>ActionQueue::Pause\<close>, \<open>Resume\<close> and \<open>Stop\<close> read \<open>_actions[_index]\<close> without a
  test. When \<open>IsDone\<close> holds (the cursor is not below the number of children, which
  includes a queue with no child) the read is past the end of the vector: each of the
  three has no defined result. When the cursor is below the number of children the
  read is in bounds, and the call is defined exactly when the call on that child is.
\<close>

theorem C3_queue_cursor_access:
  "(IsDone (ActionQueue b xs i) \<longrightarrow>
      Pause (ActionQueue b xs i) = None \<and> Resume (ActionQueue b xs i) = None \<and>
      Stop (ActionQueue b xs i) = None) \<and>
   (\<not> IsDone (ActionQueue b xs i) \<longrightarrow>
      (Pause (ActionQueue b xs i) = None \<longleftrightarrow> Pause (xs ! i) = None) \<and>
      (Resume (ActionQueue b xs i) = None \<longleftrightarrow> Resume (xs ! i) = None) \<and>
      (Stop (ActionQueue b xs i) = None \<longleftrightarrow> Stop (xs ! i) = None))"
  by (auto split: prod.splits option.splits)

theorem C3_witness:
  "IsDone (ActionQueue (fresh []) ([] :: int action list) 0) \<and>
   Pause (ActionQueue (fresh []) ([] :: int action list) 0) = None \<and>
   Resume (ActionQueue (fresh []) ([] :: int action list) 0) = None \<and>
   Stop (ActionQueue (fresh []) ([] :: int action list) 0) = None \<and>
   \<not> IsDone (ActionQueue (fresh []) [ActionFunction (fresh []) 0 False :: int action] 0) \<and>
   Pause (ActionQueue (fresh []) [ActionFunction (fresh []) 0 False :: int action] 0) \<noteq> None"
  using C3_queue_cursor_access [of "fresh []" "[] :: int action list" 0]
    C3_queue_cursor_access [of "fresh []" "[ActionFunction (fresh []) 0 False :: int action]" 0]
  by (simp add: base_defs fresh_def)

section \<open>ActionQueue: several children in one call\<close>

text \<open>
  Claim C4. A started queue of two \<open>ActionFunction\<close> children, whatever the observers
  and the callbacks are: one \<open>Update\<close> with interval 5 starts the first child, calls its
  callback and finishes it, does the same for the second child, leaves the cursor at
  2, sets the queue to FINISHED and returns the left time 5.
\<close>

theorem C4_sequence_cascade:
  "Update env 5
     (fst (Start (ActionQueue (fresh fs)
        [ActionFunction (fresh fs1) f1 False, ActionFunction (fresh fs2) f2 False] 0))) =
   Some (ActionQueue \<lparr>status = FINISHED, OnEventFuncs = fs\<rparr>
           [ActionFunction \<lparr>status = FINISHED, OnEventFuncs = fs1\<rparr> f1 True,
            ActionFunction \<lparr>status = FINISHED, OnEventFuncs = fs2\<rparr> f2 True] 2,
         [OnEvent fs1 EVENT_STARTED, FuncCall f1, OnEvent fs1 EVENT_FINISHED,
          OnEvent fs2 EVENT_STARTED, FuncCall f2, OnEvent fs2 EVENT_FINISHED,
          OnEvent fs EVENT_FINISHED],
         5)"
  by (simp add: fresh_def Start_def status_defs base_defs)

section \<open>ActionWaitAny: the first child to finish\<close>

text \<open>
  Claim C5, as amended. A started \<open>ActionWaitAny\<close> of three timers with wait times 1, 2
  and 3, whatever the observers are: after one \<open>Update\<close> with an interval of at least 1
  and less than 2, the first child is FINISHED and has consumed 1, the other two are
  CANCELED, the composite is FINISHED, and the call returns the interval minus 1.
\<close>

theorem C5_wait_any_cancels_losers:
  assumes "1 \<le> intervalTime" and "intervalTime < 2"
  shows "Update env intervalTime
     (fst (Start (ActionWaitAny (fresh fs)
        [ActionWaitForTime (fresh fs1) 1 0 False, ActionWaitForTime (fresh fs2) 2 0 False,
         ActionWaitForTime (fresh fs3) 3 0 False]))) =
   Some (ActionWaitAny \<lparr>status = FINISHED, OnEventFuncs = fs\<rparr>
           [ActionWaitForTime \<lparr>status = FINISHED, OnEventFuncs = fs1\<rparr> 1 1 True,
            ActionWaitForTime \<lparr>status = CANCELED, OnEventFuncs = fs2\<rparr> 2 intervalTime False,
            ActionWaitForTime \<lparr>status = CANCELED, OnEventFuncs = fs3\<rparr> 3 intervalTime False],
         [OnEvent fs1 EVENT_STARTED, OnEvent fs1 EVENT_FINISHED, OnEvent fs2 EVENT_STARTED,
          OnEvent fs3 EVENT_STARTED, OnEvent fs EVENT_FINISHED, OnEvent fs2 EVENT_CANCELED,
          OnEvent fs3 EVENT_CANCELED],
         intervalTime - 1)"
  using assms
  by (simp add: fresh_def Start_def status_defs base_defs ActionWaitAny_UpdateStatus_def)


theorem C5_witness:
  "(1::real) \<le> 1 \<and> (1::real) < 2 \<and>
   Update env0 1
     (fst (Start (ActionWaitAny (fresh [0])
        [ActionWaitForTime (fresh [1]) 1 0 False, ActionWaitForTime (fresh [2]) 2 0 False,
         ActionWaitForTime (fresh [3]) 3 0 False]))) =
   Some (ActionWaitAny \<lparr>status = FINISHED, OnEventFuncs = [0]\<rparr>
           [ActionWaitForTime \<lparr>status = FINISHED, OnEventFuncs = [1]\<rparr> 1 1 True,
            ActionWaitForTime \<lparr>status = CANCELED, OnEventFuncs = [2]\<rparr> 2 1 False,
            ActionWaitForTime \<lparr>status = CANCELED, OnEventFuncs = [3]\<rparr> 3 1 False],
         [OnEvent [1] EVENT_STARTED, OnEvent [1] EVENT_FINISHED, OnEvent [2] EVENT_STARTED,
          OnEvent [3] EVENT_STARTED, OnEvent [0] EVENT_FINISHED, OnEvent [2] EVENT_CANCELED,
          OnEvent [3] EVENT_CANCELED],
         0)"
  using C5_wait_any_cancels_losers [of 1 env0 "[0]" "[1]" "[2]" "[3]"]
  by simp

text \<open>
  The claim as stated fails at interval 2, which is at least 1: every child receives
  the whole interval, so the second timer reaches its wait time in the same call and
  is FINISHED, not CANCELED.
\<close>

theorem C5_counterexample:
  "(1::real) \<le> 2 \<and>
   Update env0 2
     (fst (Start (ActionWaitAny (fresh [0])
        [ActionWaitForTime (fresh [1]) 1 0 False, ActionWaitForTime (fresh [2]) 2 0 False,
         ActionWaitForTime (fresh [3]) 3 0 False]))) =
   Some (ActionWaitAny \<lparr>status = FINISHED, OnEventFuncs = [0]\<rparr>
           [ActionWaitForTime \<lparr>status = FINISHED, OnEventFuncs = [1]\<rparr> 1 1 True,
            ActionWaitForTime \<lparr>status = FINISHED, OnEventFuncs = [2]\<rparr> 2 2 True,
            ActionWaitForTime \<lparr>status = CANCELED, OnEventFuncs = [3]\<rparr> 3 2 False],
         [OnEvent [1] EVENT_STARTED, OnEvent [1] EVENT_FINISHED, OnEvent [2] EVENT_STARTED,
          OnEvent [2] EVENT_FINISHED, OnEvent [3] EVENT_STARTED, OnEvent [0] EVENT_FINISHED,
          OnEvent [3] EVENT_CANCELED],
         1)"
  by (simp add: fresh_def Start_def status_defs base_defs ActionWaitAny_UpdateStatus_def)

section \<open>ActionWaitAll\<close>










section \<open>ActionWaitForTime\<close>

lemma timer_steps_stopped:
  "status b \<noteq> RUNNING \<Longrightarrow>
   Update_steps rnd env ds (ActionWaitForTime b D e dn) =
     Some (ActionWaitForTime b D e dn, replicate (length ds) 0)"
  by (induction ds) simp_all

lemma timer_steps_running:
  "Update_steps rnd env ds (ActionWaitForTime b D e dn) = Some (a1, lefts) \<Longrightarrow>
   status b = RUNNING \<Longrightarrow> IsRunning a1 \<Longrightarrow>
   a1 = ActionWaitForTime b D (elapsed rnd e ds) (dn \<and> ds = []) \<and>
   lefts = replicate (length ds) (rnd 0)"
proof (induction ds arbitrary: e dn lefts)
  case Nil
  then show ?case by auto
next
  case (Cons d ds)
  show ?case
  proof (cases "D \<le> rnd (e + d)")
    case True
    let ?b = "b\<lparr>status := FINISHED\<rparr>"
    let ?e = "rnd (e + rnd (D - e))"
    from True Cons.prems(2) have
      "Update_rounded rnd env d (ActionWaitForTime b D e dn) =
         Some (ActionWaitForTime ?b D ?e True, OnEvent_call b EVENT_FINISHED,
               rnd (d - rnd (D - e)))"
      by (simp add: Action_UpdateStatus_def Let_def)
    moreover have "status ?b \<noteq> RUNNING" by simp
    note timer_steps_stopped [OF this, of rnd env ds D ?e True]
    ultimately have "a1 = ActionWaitForTime ?b D ?e True"
      using Cons.prems(1) by simp
    with Cons.prems(3) show ?thesis by (simp add: status_defs)
  next
    case False
    with Cons.prems(2) have
      u: "Update_rounded rnd env d (ActionWaitForTime b D e dn) =
         Some (ActionWaitForTime b D (rnd (e + d)) False, [], rnd 0)"
      by (simp add: Action_UpdateStatus_def Let_def)
    with Cons.prems(1) obtain ls where
      r: "Update_steps rnd env ds (ActionWaitForTime b D (rnd (e + d)) False) = Some (a1, ls)" and
      l: "lefts = rnd 0 # ls"
      by (auto split: option.splits)
    from Cons.IH [OF r Cons.prems(2) Cons.prems(3)] l show ?thesis
      by simp
  qed
qed

text \<open>
  Claim C7, as amended. A running timer with wait time \<open>D\<close> and no time elapsed
  receives \<open>Update\<close> calls with the intervals \<open>ds\<close>, is still RUNNING after them, and is
  FINISHED after one more call with interval \<open>d\<close>; \<open>rnd\<close> is any rounding of the double
  operations that leaves 0 as it is. Then every earlier call returned 0 and added
  its interval to the elapsed time; the last call consumes \<open>D\<close> minus the elapsed time
  and returns \<open>d\<close> minus that, each operation rounded, and the elapsed time ends at
  the rounded sum of the two, which need not be \<open>D\<close>. When none of these operations
  rounds (the elapsed time before the last call is the exact sum of \<open>ds\<close>, and the sum
  and the differences of the last call are exact), the last call returns
  \<open>d - (D - sum ds)\<close>, which is not negative, the time consumed over all calls (interval
  minus left time) sums to exactly \<open>D\<close>, and the elapsed time ends at \<open>D\<close>.
\<close>

theorem C7_timer_time_conservation:
  assumes "rnd 0 = 0"
    and "status b = RUNNING"
    and "Update_steps rnd env ds (ActionWaitForTime b D 0 False) = Some (a1, lefts)"
    and "IsRunning a1"
    and "Update_rounded rnd env d a1 = Some (a2, t, left)"
    and "IsFinished a2"
  shows "a1 = ActionWaitForTime b D (elapsed rnd 0 ds) False \<and>
         (\<forall>l \<in> set lefts. l = 0) \<and>
         left = rnd (d - rnd (D - elapsed rnd 0 ds)) \<and>
         a2 = ActionWaitForTime (b\<lparr>status := FINISHED\<rparr>) D
                (rnd (elapsed rnd 0 ds + rnd (D - elapsed rnd 0 ds))) True \<and>
         (elapsed rnd 0 ds = sum_list ds \<and>
          rnd (sum_list ds + d) = sum_list ds + d \<and>
          rnd (D - sum_list ds) = D - sum_list ds \<and>
          rnd D = D \<and>
          rnd (d - (D - sum_list ds)) = d - (D - sum_list ds) \<longrightarrow>
            left = d - (D - sum_list ds) \<and> 0 \<le> left \<and>
            sum_list (map2 (-) ds lefts) + (d - left) = D \<and>
            a2 = ActionWaitForTime (b\<lparr>status := FINISHED\<rparr>) D D True)"
proof -
  let ?e = "elapsed rnd 0 ds"
  from timer_steps_running [OF assms(3) assms(2) assms(4)] assms(1) have
    a1: "a1 = ActionWaitForTime b D ?e False" and
    lefts: "lefts = replicate (length ds) 0"
    by simp_all
  have fin: "D \<le> rnd (?e + d)"
  proof (rule ccontr)
    assume "\<not> D \<le> rnd (?e + d)"
    with assms(2) assms(5) a1 have "a2 = ActionWaitForTime b D (rnd (?e + d)) False"
      by (simp add: Action_UpdateStatus_def Let_def)
    with assms(2) assms(6) show False by (simp add: status_defs)
  qed
  with assms(2) assms(5) a1 have
    res: "a2 = ActionWaitForTime (b\<lparr>status := FINISHED\<rparr>) D (rnd (?e + rnd (D - ?e))) True"
      "left = rnd (d - rnd (D - ?e))"
    by (simp_all add: Action_UpdateStatus_def Let_def)
  have consumed: "sum_list (map2 (-) ds (replicate (length ds) 0)) = sum_list ds"
    by (induction ds) simp_all
  have exact: "left = d - (D - sum_list ds) \<and> 0 \<le> left \<and>
            sum_list (map2 (-) ds lefts) + (d - left) = D \<and>
            a2 = ActionWaitForTime (b\<lparr>status := FINISHED\<rparr>) D D True"
    if x: "?e = sum_list ds \<and>
          rnd (sum_list ds + d) = sum_list ds + d \<and>
          rnd (D - sum_list ds) = D - sum_list ds \<and>
          rnd D = D \<and>
          rnd (d - (D - sum_list ds)) = d - (D - sum_list ds)"
  proof -
    from x fin have le: "D \<le> sum_list ds + d" by simp
    from x res(2) have l: "left = d - (D - sum_list ds)" by simp
    from x res(1) have "a2 = ActionWaitForTime (b\<lparr>status := FINISHED\<rparr>) D D True" by simp
    with l le lefts consumed show ?thesis by simp
  qed
  from a1 lefts res exact show ?thesis by simp
qed

theorem C7_witness:
  "double_round 0 = 0 \<and>
   status \<lparr>status = RUNNING, OnEventFuncs = [1]\<rparr> = RUNNING \<and>
   Update_steps double_round env0 [1, 1]
       (ActionWaitForTime \<lparr>status = RUNNING, OnEventFuncs = [1]\<rparr> 3 0 False) =
     Some (ActionWaitForTime \<lparr>status = RUNNING, OnEventFuncs = [1]\<rparr> 3 2 False, [0, 0]) \<and>
   IsRunning (ActionWaitForTime \<lparr>status = RUNNING, OnEventFuncs = [1]\<rparr> 3 2 False :: int action) \<and>
   Update_rounded double_round env0 2
       (ActionWaitForTime \<lparr>status = RUNNING, OnEventFuncs = [1]\<rparr> 3 2 False) =
     Some (ActionWaitForTime \<lparr>status = FINISHED, OnEventFuncs = [1]\<rparr> 3 3 True,
           [OnEvent [1] EVENT_FINISHED], 1) \<and>
   IsFinished (ActionWaitForTime \<lparr>status = FINISHED, OnEventFuncs = [1]\<rparr> 3 3 True :: int action) \<and>
   elapsed double_round 0 [1, 1] = sum_list [1, 1] \<and>
   double_round (sum_list [1, 1] + 2) = sum_list [1, 1] + 2 \<and>
   double_round (3 - sum_list [1, 1]) = 3 - sum_list [1, 1] \<and>
   double_round 3 = 3 \<and>
   double_round (2 - (3 - sum_list [1, 1])) = 2 - (3 - sum_list [1, 1]) \<and>
   (1::real) = 2 - (3 - sum_list [1, 1]) \<and>
   sum_list (map2 (-) [1, 1] [0, 0::real]) + (2 - 1) = 3"
proof -
  let ?b = "\<lparr>status = RUNNING, OnEventFuncs = [1]\<rparr>"
  let ?a1 = "ActionWaitForTime ?b 3 2 False :: int action"
  let ?a2 = "ActionWaitForTime \<lparr>status = FINISHED, OnEventFuncs = [1]\<rparr> 3 3 True :: int action"
  have h0: "double_round 0 = 0" by (rule double_round_0)
  have h1: "status ?b = RUNNING" by simp
  have h2: "Update_steps double_round env0 [1, 1] (ActionWaitForTime ?b 3 0 False) =
      Some (?a1, [0, 0])"
    by (simp add: base_defs double_round_values double_round_0 Let_def)
  have h3: "IsRunning ?a1" by (simp add: status_defs)
  have h4: "Update_rounded double_round env0 2 ?a1 = Some (?a2, [OnEvent [1] EVENT_FINISHED], 1)"
    by (simp add: base_defs double_round_values double_round_0 Let_def)
  have h5: "IsFinished ?a2" by (simp add: status_defs)
  have x: "elapsed double_round 0 [1, 1] = sum_list [1, 1] \<and>
      double_round (sum_list [1, 1] + 2) = sum_list [1, 1] + 2 \<and>
      double_round (3 - sum_list [1, 1]) = 3 - sum_list [1, 1] \<and>
      double_round 3 = 3 \<and>
      double_round (2 - (3 - sum_list [1, 1])) = 2 - (3 - sum_list [1, 1])"
    by (simp add: double_round_values double_round_0)
  from C7_timer_time_conservation [OF h0 h1 h2 h3 h4 h5] x h0 h1 h2 h3 h4 h5 show ?thesis
    by simp
qed

text \<open>
  The claim as stated fails in double arithmetic. The timer has the wait time
  \<open>1 + 2 powi -52\<close> (the double after 1) and receives the intervals \<open>2 powi -53\<close> and 2.
  The second call finishes it: \<open>D\<close> minus the elapsed time is \<open>1 + 2 powi -53\<close>, a tie that
  rounds to 1, so the call consumes 1 and returns 1, and the elapsed time ends at 1
  and not at \<open>D\<close>. The time consumed, \<open>2 powi -53\<close> and 1, does not sum to \<open>D\<close>, and the
  left time 1 is not \<open>d - (D - elapsed)\<close>, which is not negative.
\<close>

theorem C7_counterexample:
  "Update_steps double_round env0 [1 / 9007199254740992]
       (ActionWaitForTime \<lparr>status = RUNNING, OnEventFuncs = []\<rparr>
          (4503599627370497 / 4503599627370496) 0 False) =
     Some (ActionWaitForTime \<lparr>status = RUNNING, OnEventFuncs = []\<rparr>
             (4503599627370497 / 4503599627370496) (1 / 9007199254740992) False, [0]) \<and>
   Update_rounded double_round env0 2
       (ActionWaitForTime \<lparr>status = RUNNING, OnEventFuncs = []\<rparr>
          (4503599627370497 / 4503599627370496) (1 / 9007199254740992) False) =
     Some (ActionWaitForTime \<lparr>status = FINISHED, OnEventFuncs = []\<rparr>
             (4503599627370497 / 4503599627370496) 1 True,
           [OnEvent [] EVENT_FINISHED], 1) \<and>
   (1 / 9007199254740992 - 0) + (2 - 1) \<noteq> (4503599627370497 / 4503599627370496 :: real) \<and>
   (1::real) \<noteq> 4503599627370497 / 4503599627370496 \<and>
   (0::real) \<le> 2 - (4503599627370497 / 4503599627370496 - 1 / 9007199254740992) \<and>
   (1::real) \<noteq> 2 - (4503599627370497 / 4503599627370496 - 1 / 9007199254740992)"
  by (simp add: base_defs double_round_values double_round_ties double_round_0 Let_def)

section \<open>ActionFunction\<close>

lemma function_terminal_step:
  "status b = FINISHED \<or> status b = CANCELED \<Longrightarrow>
   \<exists>b' t. perform op (ActionFunction b f d) = Some (ActionFunction b' f d, t) \<and>
     (status b' = FINISHED \<or> status b' = CANCELED) \<and> (\<forall>g. FuncCall g \<notin> set t)"
  by (cases op) (auto simp: Start_def base_defs)

lemma function_terminal_run:
  "status b = FINISHED \<or> status b = CANCELED \<Longrightarrow>
   \<exists>b' t. run ops (ActionFunction b f d) = Some (ActionFunction b' f d, t) \<and>
     (status b' = FINISHED \<or> status b' = CANCELED) \<and> (\<forall>g. FuncCall g \<notin> set t)"
proof (induction ops arbitrary: b)
  case Nil
  then show ?case by simp
next
  case (Cons op ops)
  from function_terminal_step [OF Cons.prems, of op f d] obtain b1 t1 where
    p: "perform op (ActionFunction b f d) = Some (ActionFunction b1 f d, t1)" and
    s: "status b1 = FINISHED \<or> status b1 = CANCELED" and
    n: "\<forall>g. FuncCall g \<notin> set t1"
    by blast
  from Cons.IH [OF s] obtain b2 t2 where
    r: "run ops (ActionFunction b1 f d) = Some (ActionFunction b2 f d, t2)" and
    s2: "status b2 = FINISHED \<or> status b2 = CANCELED" and
    n2: "\<forall>g. FuncCall g \<notin> set t2"
    by blast
  from p r have "run (op # ops) (ActionFunction b f d) = Some (ActionFunction b2 f d, t1 @ t2)"
    by simp
  moreover from n n2 have "\<forall>g. FuncCall g \<notin> set (t1 @ t2)" by simp
  ultimately show ?case using s2 by blast
qed

lemma function_step:
  "perform op (ActionFunction b f d) = Some (a', t) \<Longrightarrow>
   (\<exists>b'. a' = ActionFunction b' f d \<and> OnEventFuncs b' = OnEventFuncs b \<and>
      (\<forall>g. FuncCall g \<notin> set t)) \<or>
   (\<exists>b'. a' = ActionFunction b' f True \<and> status b' = FINISHED)"
  by (cases op) (auto simp: Start_def base_defs split: if_splits)

lemma function_run_running:
  "run pre (ActionFunction b f d) = Some (a1, t1) \<Longrightarrow> IsRunning a1 \<Longrightarrow>
   a1 = ActionFunction (b\<lparr>status := RUNNING\<rparr>) f d \<and> (\<forall>g. FuncCall g \<notin> set t1)"
proof (induction pre arbitrary: b t1)
  case Nil
  then show ?case by (auto simp: status_defs)
next
  case (Cons op pre)
  from Cons.prems(1) obtain a' t t' where
    p: "perform op (ActionFunction b f d) = Some (a', t)" and
    r: "run pre a' = Some (a1, t')" and t1: "t1 = t @ t'"
    by (auto split: option.splits)
  from function_step [OF p] show ?case
  proof
    assume "\<exists>b'. a' = ActionFunction b' f d \<and> OnEventFuncs b' = OnEventFuncs b \<and>
      (\<forall>g. FuncCall g \<notin> set t)"
    then obtain b' where a': "a' = ActionFunction b' f d" and
      o: "OnEventFuncs b' = OnEventFuncs b" and n: "\<forall>g. FuncCall g \<notin> set t"
      by blast
    from r a' have "run pre (ActionFunction b' f d) = Some (a1, t')" by simp
    from Cons.IH [OF this Cons.prems(2)] have
      "a1 = ActionFunction (b'\<lparr>status := RUNNING\<rparr>) f d" and "\<forall>g. FuncCall g \<notin> set t'"
      by simp_all
    moreover from o have "b'\<lparr>status := RUNNING\<rparr> = b\<lparr>status := RUNNING\<rparr>" by simp
    ultimately show ?thesis using n t1 by simp
  next
    assume "\<exists>b'. a' = ActionFunction b' f True \<and> status b' = FINISHED"
    then obtain b' where a': "a' = ActionFunction b' f True" and s: "status b' = FINISHED"
      by blast
    from s have "status b' = FINISHED \<or> status b' = CANCELED" by simp
    from function_terminal_run [OF this, of pre f True] r a' obtain b2 where
      "a1 = ActionFunction b2 f True" and "status b2 = FINISHED \<or> status b2 = CANCELED"
      by auto
    with Cons.prems(2) show ?thesis by (auto simp: status_defs)
  qed
qed

lemma function_step_count:
  "perform op (ActionFunction b f d) = Some (a', t) \<Longrightarrow>
   (\<exists>b'. a' = ActionFunction b' f d \<and> (\<forall>g. FuncCall g \<notin> set t)) \<or>
   (\<exists>b'. a' = ActionFunction b' f True \<and> status b' = FINISHED \<and>
      count_list t (FuncCall f) = 1)"
  by (cases op) (auto simp: Start_def base_defs split: if_splits)

lemma function_perform_total:
  "\<exists>a' t. perform op (ActionFunction b f d) = Some (a', t)"
  by (cases op) (auto simp: Start_def base_defs)

lemma count_list_absent: "\<forall>g. FuncCall g \<notin> set t \<Longrightarrow> count_list t (FuncCall f) = 0"
  by (simp add: count_list_0_iff)

lemma function_run_at_most_once:
  "\<exists>a' t. run ops (ActionFunction b f d) = Some (a', t) \<and> count_list t (FuncCall f) \<le> 1"
proof (induction ops arbitrary: b d)
  case Nil
  show ?case by simp
next
  case (Cons op ops)
  from function_perform_total [of op b f d] obtain a1 t1 where
    p: "perform op (ActionFunction b f d) = Some (a1, t1)" by blast
  from function_step_count [OF p] show ?case
  proof
    assume "\<exists>b'. a1 = ActionFunction b' f d \<and> (\<forall>g. FuncCall g \<notin> set t1)"
    then obtain b' where a1: "a1 = ActionFunction b' f d" and n: "\<forall>g. FuncCall g \<notin> set t1"
      by blast
    from Cons.IH [of b' d] obtain a2 t2 where
      r: "run ops (ActionFunction b' f d) = Some (a2, t2)" and
      c: "count_list t2 (FuncCall f) \<le> 1"
      by blast
    from p a1 r have "run (op # ops) (ActionFunction b f d) = Some (a2, t1 @ t2)" by simp
    moreover from count_list_absent [OF n, of f] c have "count_list (t1 @ t2) (FuncCall f) \<le> 1"
      by simp
    ultimately show ?thesis by blast
  next
    assume "\<exists>b'. a1 = ActionFunction b' f True \<and> status b' = FINISHED \<and>
      count_list t1 (FuncCall f) = 1"
    then obtain b' where a1: "a1 = ActionFunction b' f True" and s: "status b' = FINISHED"
      and c: "count_list t1 (FuncCall f) = 1"
      by blast
    from s have "status b' = FINISHED \<or> status b' = CANCELED" by simp
    from function_terminal_run [OF this, of ops f True] obtain b2 t2 where
      r: "run ops (ActionFunction b' f True) = Some (ActionFunction b2 f True, t2)" and
      n: "\<forall>g. FuncCall g \<notin> set t2"
      by blast
    from p a1 r have "run (op # ops) (ActionFunction b f d) =
        Some (ActionFunction b2 f True, t1 @ t2)" by simp
    moreover from count_list_absent [OF n, of f] c have "count_list (t1 @ t2) (FuncCall f) \<le> 1"
      by simp
    ultimately show ?thesis by blast
  qed
qed

text \<open>
  Claim C8. Take an \<open>ActionFunction\<close> in any state. Every sequence of lifecycle
  operations and \<open>Update\<close> calls on it is defined and calls the callback at most once.
  Let \<open>pre\<close> be a sequence after which the action is RUNNING. Then \<open>pre\<close> has not called
  the callback; an \<open>Update\<close> now calls it once, before the FINISHED event, sets the done
  flag, leaves the action FINISHED and returns the whole interval; and no sequence of
  operations after that calls the callback again.
\<close>

theorem C8_function_called_once:
  fixes a1 :: "'v action"
  assumes "run pre (ActionFunction b f d) = Some (a1, t1)"
    and "IsRunning a1"
  shows "(\<forall>ops. \<exists>a' t. run ops (ActionFunction b f d :: 'v action) = Some (a', t) \<and>
            count_list t (FuncCall f) \<le> 1) \<and>
         FuncCall f \<notin> set t1 \<and>
         Update env intervalTime a1 =
           Some (ActionFunction (b\<lparr>status := FINISHED\<rparr>) f True,
                 [FuncCall f, OnEvent (OnEventFuncs b) EVENT_FINISHED], intervalTime) \<and>
         IsDone (ActionFunction (b\<lparr>status := FINISHED\<rparr>) f True :: 'v action) \<and>
         (\<forall>post. \<exists>a3 t3.
            run post (ActionFunction (b\<lparr>status := FINISHED\<rparr>) f True :: 'v action) = Some (a3, t3) \<and>
            FuncCall f \<notin> set t3)"
proof -
  from function_run_running [OF assms] have
    a1: "a1 = ActionFunction (b\<lparr>status := RUNNING\<rparr>) f d" and n: "FuncCall f \<notin> set t1"
    by simp_all
  from a1 have u: "Update env intervalTime a1 =
           Some (ActionFunction (b\<lparr>status := FINISHED\<rparr>) f True,
                 [FuncCall f, OnEvent (OnEventFuncs b) EVENT_FINISHED], intervalTime)"
    by (simp add: base_defs)
  have "\<exists>a3 t3. run post (ActionFunction (b\<lparr>status := FINISHED\<rparr>) f True :: 'v action) = Some (a3, t3) \<and>
            FuncCall f \<notin> set t3" for post
  proof -
    have "status (b\<lparr>status := FINISHED\<rparr>) = FINISHED \<or> status (b\<lparr>status := FINISHED\<rparr>) = CANCELED"
      by simp
    from function_terminal_run [OF this, of post f True] show ?thesis by blast
  qed
  moreover have "\<forall>ops. \<exists>a' t. run ops (ActionFunction b f d :: 'v action) = Some (a', t) \<and>
            count_list t (FuncCall f) \<le> 1"
    by (intro allI function_run_at_most_once)
  ultimately show ?thesis using n u by simp
qed


theorem C8_witness:
  "run [OpStart, OpPause, OpUpdate env0 1, OpResume] (ActionFunction (fresh [1]) 7 False) =
     Some (ActionFunction \<lparr>status = RUNNING, OnEventFuncs = [1]\<rparr> 7 False,
           [OnEvent [1] EVENT_STARTED, OnEvent [1] EVENT_PAUSED, OnEvent [1] EVENT_RESUMED]) \<and>
   IsRunning (ActionFunction \<lparr>status = RUNNING, OnEventFuncs = [1]\<rparr> 7 False :: int action) \<and>
   Update env0 4 (ActionFunction \<lparr>status = RUNNING, OnEventFuncs = [1]\<rparr> 7 False) =
     Some (ActionFunction \<lparr>status = FINISHED, OnEventFuncs = [1]\<rparr> 7 True,
           [FuncCall 7, OnEvent [1] EVENT_FINISHED], 4) \<and>
   run [OpUpdate env0 1, OpStop, OpStart, OpResume, OpUpdate env0 2]
       (ActionFunction \<lparr>status = FINISHED, OnEventFuncs = [1]\<rparr> 7 True) =
     Some (ActionFunction \<lparr>status = CANCELED, OnEventFuncs = [1]\<rparr> 7 True,
           [OnEvent [1] EVENT_CANCELED]) \<and>
   FuncCall 7 \<notin> set [OnEvent [1] EVENT_CANCELED]"
proof -
  let ?a1 = "ActionFunction \<lparr>status = RUNNING, OnEventFuncs = [1]\<rparr> 7 False :: int action"
  let ?a2 = "ActionFunction \<lparr>status = FINISHED, OnEventFuncs = [1]\<rparr> 7 True :: int action"
  let ?post = "[OpUpdate env0 1, OpStop, OpStart, OpResume, OpUpdate env0 2]"
  have h1: "run [OpStart, OpPause, OpUpdate env0 1, OpResume] (ActionFunction (fresh [1]) 7 False) =
     Some (?a1, [OnEvent [1] EVENT_STARTED, OnEvent [1] EVENT_PAUSED, OnEvent [1] EVENT_RESUMED])"
    by (simp add: fresh_def Start_def base_defs)
  have h2: "IsRunning ?a1" by (simp add: status_defs)
  have p: "run ?post ?a2 =
     Some (ActionFunction \<lparr>status = CANCELED, OnEventFuncs = [1]\<rparr> 7 True,
           [OnEvent [1] EVENT_CANCELED])"
    by (simp add: Start_def base_defs)
  from C8_function_called_once [OF h1 h2, of env0 4] have
    u: "Update env0 4 ?a1 = Some (?a2, [FuncCall 7, OnEvent [1] EVENT_FINISHED], 4)" and
    a: "\<forall>post. \<exists>a3 t3. run post ?a2 = Some (a3, t3) \<and> FuncCall 7 \<notin> set t3"
    by (simp_all add: fresh_def)
  from a have "\<exists>a3 t3. run ?post ?a2 = Some (a3, t3) \<and> FuncCall 7 \<notin> set t3" by (rule spec)
  with p have "FuncCall 7 \<notin> set [OnEvent [1] EVENT_CANCELED]" by simp
  with h1 h2 u p show ?thesis by simp
qed

section \<open>ActionManager\<close>

lemma ActionManager_Start_present:
  "map_of m name = Some a0 \<Longrightarrow> ActionManager_Start name a m = (m, [])"
  by (simp add: ActionManager_Start_def)

lemma ActionManager_Start_absent:
  "map_of m name = None \<Longrightarrow>
   ActionManager_Start name a m = (m @ [(name, fst (Start a))], snd (Start a))"
  by (simp add: ActionManager_Start_def split: prod.splits)

text \<open>
  Claim C9. After \<open>Start name a1\<close>, a second \<open>Start name a2\<close> returns the registry as it
  is and has no effect at all: nothing is overwritten, \<open>a2\<close> is not started and no
  observer runs. When the name was free before the first call, the entry under the
  name is \<open>a1\<close> as \<open>Action::Start\<close> leaves it.
\<close>

theorem C9_duplicate_start_ignored:
  "ActionManager_Start name a2 (fst (ActionManager_Start name a1 m)) =
     (fst (ActionManager_Start name a1 m), []) \<and>
   (\<not> IsExist name m \<longrightarrow>
      map_of (fst (ActionManager_Start name a1 m)) name = Some (fst (Start a1)))"
proof (cases "map_of m name")
  case None
  let ?m1 = "m @ [(name, fst (Start a1))]"
  from None have m1: "fst (ActionManager_Start name a1 m) = ?m1"
    by (simp add: ActionManager_Start_absent)
  from None have look: "map_of ?m1 name = Some (fst (Start a1))"
    by (simp add: map_add_def)
  from ActionManager_Start_present [OF look] m1 look show ?thesis by simp
next
  case (Some a0)
  then show ?thesis
    by (simp add: ActionManager_Start_present IsExist_def)
qed


theorem C9_witness:
  "\<not> IsExist ''walk'' ([] :: int ActionManager) \<and>
   fst (ActionManager_Start ''walk'' (ActionWaitForTime (fresh [1]) 2 0 False) []) =
     [(''walk'', ActionWaitForTime \<lparr>status = RUNNING, OnEventFuncs = [1]\<rparr> 2 0 False
        :: int action)] \<and>
   ActionManager_Start ''walk'' (ActionFunction (fresh [2]) 7 False)
       (fst (ActionManager_Start ''walk'' (ActionWaitForTime (fresh [1]) 2 0 False) [])) =
     ([(''walk'', ActionWaitForTime \<lparr>status = RUNNING, OnEventFuncs = [1]\<rparr> 2 0 False
         :: int action)], [])"
  using C9_duplicate_start_ignored [of "''walk''" "ActionFunction (fresh [2]) 7 False"
      "ActionWaitForTime (fresh [1]) 2 0 False" "[] :: int ActionManager"]
  by (simp add: IsExist_def ActionManager_Start_def Start_def fresh_def base_defs)

lemma ActionManager_Update_keys:
  "ActionManager_Update env dt m = Some (m', t) \<Longrightarrow> set (map fst m') \<subseteq> set (map fst m)"
proof (induction m arbitrary: m' t)
  case Nil
  then show ?case by simp
next
  case (Cons e m)
  obtain n b where e: "e = (n, b)" by (cases e)
  from Cons.prems e obtain b' tb lb r tr where
    r: "ActionManager_Update env dt m = Some (r, tr)" and
    m': "m' = (if IsFinished b' then r else (n, b') # r)"
    by (auto split: option.splits)
  from Cons.IH [OF r] have "set (map fst r) \<subseteq> set (map fst m)" .
  with m' e show ?case by auto
qed

lemma ActionManager_Update_erases:
  "ActionManager_Update env dt m = Some (m', t) \<Longrightarrow> distinct (map fst m) \<Longrightarrow>
   (name, a) \<in> set m \<Longrightarrow> Update env dt a = Some (a', t', left) \<Longrightarrow> IsFinished a' \<Longrightarrow>
   name \<notin> set (map fst m')"
proof (induction m arbitrary: m' t)
  case Nil
  then show ?case by simp
next
  case (Cons e m)
  obtain n b where e: "e = (n, b)" by (cases e)
  show ?case
  proof (cases "(name, a) = e")
    case True
    with Cons.prems e obtain r where "ActionManager_Update env dt m = Some (m', r)"
      by (auto split: option.splits if_splits)
    from ActionManager_Update_keys [OF this] Cons.prems(2) True e show ?thesis
      by auto
  next
    case False
    with Cons.prems have mem: "(name, a) \<in> set m" by simp
    from Cons.prems(1) e obtain b' tb lb r tr where
      b: "Update env dt b = Some (b', tb, lb)" and
      r: "ActionManager_Update env dt m = Some (r, tr)" and
      m': "m' = (if IsFinished b' then r else (n, b') # r)"
      by (auto split: option.splits)
    from Cons.prems(2) have d: "distinct (map fst m)" by simp
    from Cons.IH [OF r d mem Cons.prems(4) Cons.prems(5)] have "name \<notin> set (map fst r)" .
    moreover from mem Cons.prems(2) e have "name \<noteq> n" by force
    ultimately show ?thesis using m' by simp
  qed
qed

text \<open>
  Claim C10. In a registry with distinct names, when the action registered under a
  name is FINISHED right after its own \<open>Update\<close> with the interval of the registry's
  \<open>Update\<close>, the registry after that \<open>Update\<close> has no entry under the name: \<open>IsExist\<close> is
  false.
\<close>

theorem C10_finished_entry_removed:
  assumes "distinct (map fst m)"
    and "(name, a) \<in> set m"
    and "Update env intervalTime a = Some (a', t', left)"
    and "IsFinished a'"
    and "ActionManager_Update env intervalTime m = Some (m', t)"
  shows "\<not> IsExist name m'"
proof -
  from ActionManager_Update_erases [OF assms(5) assms(1) assms(2) assms(3) assms(4)]
  have "name \<notin> set (map fst m')" .
  then have "map_of m' name = None"
    by (simp add: map_of_eq_None_iff)
  then show ?thesis by (simp add: IsExist_def)
qed

theorem C10_witness:
  "distinct (map fst [(''call'', ActionFunction \<lparr>status = RUNNING, OnEventFuncs = []\<rparr> 7 False),
      (''wait'', ActionWaitForTime \<lparr>status = RUNNING, OnEventFuncs = []\<rparr> 5 0 False)]) \<and>
   ActionManager_Update env0 1
     [(''call'', ActionFunction \<lparr>status = RUNNING, OnEventFuncs = []\<rparr> 7 False),
      (''wait'', ActionWaitForTime \<lparr>status = RUNNING, OnEventFuncs = []\<rparr> 5 0 False)] =
     Some ([(''wait'', ActionWaitForTime \<lparr>status = RUNNING, OnEventFuncs = []\<rparr> 5 1 False)],
           [FuncCall 7, OnEvent [] EVENT_FINISHED]) \<and>
   \<not> IsExist ''call''
     [(''wait'', ActionWaitForTime \<lparr>status = RUNNING, OnEventFuncs = []\<rparr> 5 1 False :: int action)]"
proof -
  let ?f = "ActionFunction \<lparr>status = RUNNING, OnEventFuncs = []\<rparr> 7 False :: int action"
  let ?f' = "ActionFunction \<lparr>status = FINISHED, OnEventFuncs = []\<rparr> 7 True :: int action"
  let ?w = "ActionWaitForTime \<lparr>status = RUNNING, OnEventFuncs = []\<rparr> 5 0 False :: int action"
  let ?w' = "ActionWaitForTime \<lparr>status = RUNNING, OnEventFuncs = []\<rparr> 5 1 False :: int action"
  let ?m = "[(''call'', ?f), (''wait'', ?w)]"
  have h1: "distinct (map fst ?m)" by simp
  have h2: "(''call'', ?f) \<in> set ?m" by simp
  have h3: "Update env0 1 ?f = Some (?f', [FuncCall 7, OnEvent [] EVENT_FINISHED], 1)"
    by (simp add: base_defs)
  have h4: "IsFinished ?f'" by (simp add: status_defs)
  have h5: "ActionManager_Update env0 1 ?m =
      Some ([(''wait'', ?w')], [FuncCall 7, OnEvent [] EVENT_FINISHED])"
    by (simp add: base_defs status_defs)
  from C10_finished_entry_removed [OF h1 h2 h3 h4 h5] h1 h5 show ?thesis by simp
qed

end
